theory Spec2Isabelle
  imports Main "HOL-Library.Sublist"
begin

section \<open>Strings of the scraping service\<close>

text \<open>
  A string is a list of code units; the model covers the code units below 256
  (U+0000 to U+00FF), one \<open>char\<close> each. On that range \<open>toLowerCase\<close> moves
  \<open>A\<close>..\<open>Z\<close> and the capital letters U+00C0..U+00DE (U+00D7, the multiplication
  sign, apart) 32 places up and leaves every other code unit alone.
\<close>

definition toLowerCase_char :: "char \<Rightarrow> char" where
  "toLowerCase_char c =
     (let n = (of_char c :: int)
      in if (65 \<le> n \<and> n \<le> 90) \<or> (192 \<le> n \<and> n \<le> 222 \<and> n \<noteq> 215)
         then char_of (n + 32) else c)"

definition toLowerCase :: "string \<Rightarrow> string" where
  "toLowerCase s = map toLowerCase_char s"

text \<open>
  The class \<open>\s\<close> of a regular expression, which is also what \<open>trim\<close> strips:
  tab, line feed, vertical tab, form feed, carriage return, space and the no-break
  space U+00A0 (its other members are code units from U+1680 on).
\<close>

definition is_space :: "char \<Rightarrow> bool" where
  "is_space c = ((of_char c :: int) \<in> {9, 10, 11, 12, 13, 32, 160})"

definition is_hyphen :: "char \<Rightarrow> bool" where
  "is_hyphen c = (c = CHR ''-'')"

text \<open>The class \<open>[a-z0-9\s-]\<close>; \<open>a\<close> is 97, \<open>z\<close> is 122, \<open>0\<close> is 48, \<open>9\<close> is 57.\<close>

definition is_slug_source_char :: "char \<Rightarrow> bool" where
  "is_slug_source_char c =
     (let n = (of_char c :: int)
      in (97 \<le> n \<and> n \<le> 122) \<or> (48 \<le> n \<and> n \<le> 57) \<or> is_space c \<or> is_hyphen c)"

text \<open>
  \<open>s.replace(/X+/g, '-')\<close> for a character class \<open>X\<close>: every maximal run of
  characters of the class becomes one hyphen.
\<close>

function replace_runs :: "(char \<Rightarrow> bool) \<Rightarrow> string \<Rightarrow> string" where
  "replace_runs P [] = []"
| "replace_runs P (c # cs) =
     (if P c then CHR ''-'' # replace_runs P (dropWhile P cs)
      else c # replace_runs P cs)"
  by pat_completeness auto
termination
  by (relation "measure (\<lambda>(P, s). length s)")
     (auto simp: less_Suc_eq_le length_dropWhile_le)

definition trim :: "string \<Rightarrow> string" where
  "trim s = rev (dropWhile is_space (rev (dropWhile is_space s)))"

text \<open>\<open>s.includes(t)\<close>: \<open>t\<close> occurs in \<open>s\<close> as a contiguous piece.\<close>

fun str_includes :: "string \<Rightarrow> string \<Rightarrow> bool" where
  "str_includes [] t = (t = [])"
| "str_includes (c # cs) t = (prefix t (c # cs) \<or> str_includes cs t)"

text \<open>The decimal digits of a page number, as a template literal prints them.\<close>

fun digits_of :: "nat \<Rightarrow> nat \<Rightarrow> string" where
  "digits_of 0 n = []"
| "digits_of (Suc fuel) n =
     (if n < 10 then [char_of (48 + n)]
      else digits_of fuel (n div 10) @ [char_of (48 + n mod 10)])"

definition string_of_nat :: "nat \<Rightarrow> string" where
  "string_of_nat n = digits_of (Suc n) n"

section \<open>The text transforms\<close>

text \<open>
  \<open>generateSlug\<close>: lower-case, delete what is outside \<open>[a-z0-9\s-]\<close>, turn runs of
  white space into a hyphen, collapse runs of hyphens, \<open>trim\<close>.
\<close>

definition generateSlug :: "string \<Rightarrow> string" where
  "generateSlug title =
     trim (replace_runs is_hyphen (replace_runs is_space
       (filter is_slug_source_char (toLowerCase title))))"

definition parseStatus :: "string \<Rightarrow> string" where
  "parseStatus statusText =
     (let status = toLowerCase statusText
      in if str_includes status ''ongoing'' \<or> str_includes status ''berlangsung'' then ''ongoing''
         else if str_includes status ''completed'' \<or> str_includes status ''selesai'' then ''completed''
         else if str_includes status ''upcoming'' \<or> str_includes status ''akan datang'' then ''upcoming''
         else ''ongoing'')"

section \<open>The data model\<close>

text \<open>
  A thrown value: an \<open>Error\<close> with its message, or the error of the HTTP client with
  the status of the response when there was one (\<open>error.response?.status\<close>).
\<close>

datatype exn = Error string | AxiosError "int option"

record ScrapingConfig =
  usePuppeteer :: bool
  timeout :: int
  retries :: nat
  delay :: int
  userAgent :: string
  proxy :: "string option"

record DownloadLink =
  dl_quality :: string
  dl_url :: string
  dl_size :: "string option"
  dl_format :: string

record ScrapedEpisodeData =
  ep_title :: string
  episodeNumber :: nat
  ep_imageUrl :: "string option"
  ep_description :: "string option"
  airDate :: "nat option"
  duration :: "nat option"
  downloadLinks :: "DownloadLink list"

record metadata_t =
  originalUrl :: string
  scrapedAt :: nat
  source :: string

record ScrapedAnimeData =
  title :: string
  slug :: string
  imageUrl :: string
  status :: string
  description :: "string option"
  genres :: "string list"
  episodes :: "ScrapedEpisodeData list"
  metadata :: metadata_t

text \<open>
  What the static path reads from one \<open>#episodes .episode\<close> element of the parsed
  page: the \<open>src\<close> of its image (\<open>None\<close> when \<open>attr\<close> gives \<open>undefined\<close>: no image, or
  no such attribute) and the text of its title, status and time elements (empty when
  the element is absent). An element on which a query throws is \<open>Inl\<close> of what it
  throws.
\<close>

record episode_fields =
  img_src :: "string option"
  title_text :: string
  status_text :: string
  time_text :: string

type_synonym cheerio_element = "exn + episode_fields"

text \<open>
  What the rendered path sees inside the browser: \<open>querySelector\<close> gives a node or
  \<open>null\<close>, a node has a \<open>textContent\<close> and may have a \<open>src\<close> attribute.
\<close>

record dom_node =
  textContent :: "string option"
  src_attribute :: "string option"

record dom_episode =
  imageElement :: "dom_node option"
  titleElement :: "dom_node option"
  statusElement :: "dom_node option"
  timeElement :: "dom_node option"

type_synonym dom_element = "exn + dom_episode"

record RawItem =
  raw_title :: string
  raw_imageUrl :: string
  raw_status :: string
  raw_time :: string

text \<open>
  How the browser answers the calls made on one tab: for each call \<open>None\<close> when it
  resolves and the thrown value when it rejects; \<open>evaluate\<close> rejects or runs the
  callback on the \<open>#episodes .episode\<close> elements of the document.
\<close>

record page_behaviour =
  newPage :: "exn option"
  setViewport :: "exn option"
  setUserAgent :: "exn option"
  goto :: "exn option"
  waitForSelector :: "exn option"
  evaluate :: "exn + dom_element list"

text \<open>
  The outside world. The service counts its fetch attempts; the \<open>k\<close>-th attempt, on
  a URL, gets \<open>axios_get k url\<close> (the response parsed into its episode elements, or
  the error) or \<open>render k url\<close>. \<open>new_Date k i\<close> is the clock read for item \<open>i\<close> of
  attempt \<open>k\<close>; \<open>launch\<close> is how \<open>puppeteer.launch\<close> ends.
\<close>

record env =
  axios_get :: "nat \<Rightarrow> string \<Rightarrow> exn + cheerio_element list"
  render :: "nat \<Rightarrow> string \<Rightarrow> page_behaviour"
  new_Date :: "nat \<Rightarrow> nat \<Rightarrow> nat"
  launch :: "exn option"

datatype event =
    LogInfo string
  | LogError string exn
  | ConsoleError string exn
  | SetTimeout int
  | RetryWait
  | Launch
  | AxiosGet string
  | NewPage
  | Goto string
  | PageClose

text \<open>
  The service object: its configuration, the \<open>maxRetries\<close> its retry service was
  built with, whether \<open>this.browser\<close> is set, the tabs open in the browser, the
  number of fetch attempts made, and what it has done so far.
\<close>

record scraper =
  config :: ScrapingConfig
  retryService :: nat
  browser :: bool
  tabs :: nat
  calls :: nat
  trace :: "event list"

section \<open>The scraping service\<close>

definition emit :: "event \<Rightarrow> scraper \<Rightarrow> scraper" where
  "emit e s = s\<lparr>trace := trace s @ [e]\<rparr>"

text \<open>The method \<open>delay(ms)\<close> (the configuration has a field of that name).\<close>

definition delay_ms :: "int \<Rightarrow> scraper \<Rightarrow> scraper" where
  "delay_ms ms s = emit (SetTimeout ms) s"

definition initializeBrowser :: "env \<Rightarrow> scraper \<Rightarrow> (exn + unit) \<times> scraper" where
  "initializeBrowser w s =
     (if usePuppeteer (config s) \<and> \<not> browser s
      then (case launch w of
              Some e \<Rightarrow> (Inl e, s)
            | None \<Rightarrow> (Inr (), emit Launch (s\<lparr>browser := True\<rparr>)))
      else (Inr (), s))"

text \<open>
  \<open>extractAnimeData\<close>, with the clock it reads as an argument. The \<open>try\<close> block
  becomes the \<open>Inr\<close> case, the \<open>catch\<close> the \<open>Inl\<close> case; the second component is
  what it logs.
\<close>

definition extractAnimeData ::
  "nat \<Rightarrow> cheerio_element \<Rightarrow> string \<Rightarrow> ScrapedAnimeData option \<times> event list" where
  "extractAnimeData now element baseUrl =
     (case element of
        Inl e \<Rightarrow> (None, [LogError ''Error extracting anime data:'' e])
      | Inr f \<Rightarrow>
          (let title' = trim (title_text f);
               imageUrl' = (case img_src f of None \<Rightarrow> [] | Some u \<Rightarrow> u);
               status' = trim (status_text f)
           in if title' = [] \<or> imageUrl' = [] then (None, [])
              else (Some \<lparr>title = title',
                          slug = generateSlug title',
                          imageUrl = imageUrl',
                          status = parseStatus status',
                          description = Some [],
                          genres = [],
                          episodes = [],
                          metadata = \<lparr>originalUrl = baseUrl, scrapedAt = now,
                                      source = ''animeindo''\<rparr>\<rparr>, [])))"

text \<open>
  The \<open>each\<close> loop of \<open>scrapeWithCheerio\<close>, from index \<open>i\<close> on. Its own \<open>catch\<close>
  has no case here: \<open>extractAnimeData\<close> throws nothing.
\<close>

fun each_episode ::
  "(nat \<Rightarrow> nat) \<Rightarrow> string \<Rightarrow> nat \<Rightarrow> cheerio_element list
     \<Rightarrow> ScrapedAnimeData list \<times> event list" where
  "each_episode clock url' i [] = ([], [])"
| "each_episode clock url' i (element # rest) =
     (let (anime, log1) = extractAnimeData (clock i) element url';
          (animeList, log2) = each_episode clock url' (Suc i) rest
      in ((case anime of Some a \<Rightarrow> a # animeList | None \<Rightarrow> animeList), log1 @ log2))"

text \<open>
  \<open>scrapeWithCheerio\<close>: the GET, with the response interceptor (a 429 waits five
  seconds and throws the error again), then the loop over the episode elements.
  The request interceptor only sets the proxy of the request; what the request
  meets is the world's answer either way.
\<close>

definition scrapeWithCheerio ::
  "env \<Rightarrow> string \<Rightarrow> scraper \<Rightarrow> (exn + ScrapedAnimeData list) \<times> scraper" where
  "scrapeWithCheerio w url' s =
     (let k = calls s;
          s1 = emit (AxiosGet url') (s\<lparr>calls := Suc k\<rparr>)
      in case axios_get w k url' of
           Inl e \<Rightarrow> (Inl e, if e = AxiosError (Some 429) then delay_ms 5000 s1 else s1)
         | Inr elements \<Rightarrow>
             (let (animeList, log) = each_episode (new_Date w k) url' 0 elements
              in (Inr animeList, s1\<lparr>trace := trace s1 @ log\<rparr>)))"

text \<open>The callback of \<open>episodes.forEach\<close> inside \<open>page.evaluate\<close>, for one element.\<close>

definition text_or_empty :: "dom_node option \<Rightarrow> string" where
  "text_or_empty node =
     (case node of
        None \<Rightarrow> []
      | Some n \<Rightarrow> (case textContent n of None \<Rightarrow> [] | Some t \<Rightarrow> trim t))"

definition evaluate_episode :: "dom_element \<Rightarrow> RawItem list \<times> event list" where
  "evaluate_episode episode =
     (case episode of
        Inl e \<Rightarrow> ([], [ConsoleError ''Error extracting episode data:'' e])
      | Inr d \<Rightarrow>
          (case (titleElement d, imageElement d) of
             (Some t, Some i) \<Rightarrow>
               ([\<lparr>raw_title = text_or_empty (Some t),
                  raw_imageUrl = (case src_attribute i of None \<Rightarrow> [] | Some u \<Rightarrow> u),
                  raw_status = text_or_empty (statusElement d),
                  raw_time = text_or_empty (timeElement d)\<rparr>], [])
           | _ \<Rightarrow> ([], [])))"

fun evaluate_callback :: "dom_element list \<Rightarrow> RawItem list \<times> event list" where
  "evaluate_callback [] = ([], [])"
| "evaluate_callback (episode # rest) =
     (let (items1, log1) = evaluate_episode episode;
          (items2, log2) = evaluate_callback rest
      in (items1 @ items2, log1 @ log2))"

text \<open>\<open>animeList.map((item, index) => ...)\<close>, from index \<open>i\<close> on.\<close>

fun map_items :: "(nat \<Rightarrow> nat) \<Rightarrow> string \<Rightarrow> nat \<Rightarrow> RawItem list \<Rightarrow> ScrapedAnimeData list" where
  "map_items clock url' i [] = []"
| "map_items clock url' i (item # rest) =
     \<lparr>title = raw_title item,
      slug = generateSlug (raw_title item),
      imageUrl = raw_imageUrl item,
      status = parseStatus (raw_status item),
      description = Some [],
      genres = [],
      episodes = [],
      metadata = \<lparr>originalUrl = url', scrapedAt = clock i, source = ''animeindo''\<rparr>\<rparr>
     # map_items clock url' (Suc i) rest"

text \<open>The \<open>try\<close> block of \<open>scrapeWithPuppeteer\<close>, on the tab just opened.\<close>

definition page_try ::
  "env \<Rightarrow> nat \<Rightarrow> page_behaviour \<Rightarrow> string \<Rightarrow> scraper
     \<Rightarrow> (exn + ScrapedAnimeData list) \<times> scraper" where
  "page_try w k b url' s =
     (case setViewport b of Some e \<Rightarrow> (Inl e, s) | None \<Rightarrow>
      (case setUserAgent b of Some e \<Rightarrow> (Inl e, s) | None \<Rightarrow>
       (let s1 = emit (Goto url') s
        in case goto b of Some e \<Rightarrow> (Inl e, s1) | None \<Rightarrow>
           (case waitForSelector b of Some e \<Rightarrow> (Inl e, s1) | None \<Rightarrow>
            (case evaluate b of Inl e \<Rightarrow> (Inl e, s1) | Inr document \<Rightarrow>
               (let (animeList, log) = evaluate_callback document
                in (Inr (map_items (new_Date w k) url' 0 animeList),
                    s1\<lparr>trace := trace s1 @ log\<rparr>)))))))"

text \<open>
  \<open>scrapeWithPuppeteer\<close>: the guard, \<open>newPage\<close>, the \<open>try\<close> block, and the
  \<open>finally\<close> that closes the tab whatever the block returned.
\<close>

definition scrapeWithPuppeteer ::
  "env \<Rightarrow> string \<Rightarrow> scraper \<Rightarrow> (exn + ScrapedAnimeData list) \<times> scraper" where
  "scrapeWithPuppeteer w url' s =
     (if \<not> browser s then (Inl (Error ''Browser not initialized''), s)
      else
        (let k = calls s;
             b = render w k url';
             s0 = s\<lparr>calls := Suc k\<rparr>
         in case newPage b of
              Some e \<Rightarrow> (Inl e, s0)
            | None \<Rightarrow>
                (let (r, s2) = page_try w k b url' (emit NewPage (s0\<lparr>tabs := Suc (tabs s0)\<rparr>))
                 in (r, emit PageClose (s2\<lparr>tabs := tabs s2 - 1\<rparr>)))))"

text \<open>
  Modelled from the spec: \<open>RetryService.execute\<close>, whose file is not among the
  sources. The spec: it invokes the operation; on failure it waits and retries until
  success or until \<open>maxRetries\<close> retries are used up, and then fails with the last
  error; the operation runs \<open>1 + maxRetries\<close> times in the worst case. The length of
  the wait is left open there, so the wait is an event without a duration.
\<close>

fun execute ::
  "nat \<Rightarrow> (scraper \<Rightarrow> (exn + 'a) \<times> scraper) \<Rightarrow> scraper \<Rightarrow> (exn + 'a) \<times> scraper" where
  "execute 0 operation s = operation s"
| "execute (Suc n) operation s =
     (case operation s of
        (Inr v, s') \<Rightarrow> (Inr v, s')
      | (Inl e, s') \<Rightarrow> execute n operation (emit RetryWait s'))"

definition page_url :: "nat \<Rightarrow> string" where
  "page_url page = ''http://animeindo.web.id/page/'' @ string_of_nat page @ ''/''"

text \<open>The operation that \<open>scrapeAnimePage\<close> hands to the retry service.\<close>

definition fetch :: "env \<Rightarrow> string \<Rightarrow> scraper \<Rightarrow> (exn + ScrapedAnimeData list) \<times> scraper" where
  "fetch w url' s =
     (if usePuppeteer (config s) then scrapeWithPuppeteer w url' s
      else scrapeWithCheerio w url' s)"

definition scrapeAnimePage ::
  "env \<Rightarrow> nat \<Rightarrow> scraper \<Rightarrow> (exn + ScrapedAnimeData list) \<times> scraper" where
  "scrapeAnimePage w page s = execute (retryService s) (fetch w (page_url page)) s"

text \<open>
  The loop of \<open>scrapeAnimePages\<close>, with \<open>results\<close> as it stands before the pages
  still to do.
\<close>

fun scrapeAnimePages_loop ::
  "env \<Rightarrow> nat list \<Rightarrow> ScrapedAnimeData list \<Rightarrow> scraper \<Rightarrow> ScrapedAnimeData list \<times> scraper" where
  "scrapeAnimePages_loop w [] results s = (results, s)"
| "scrapeAnimePages_loop w (page # pages) results s =
     (case scrapeAnimePage w page (emit (LogInfo (''Scraping page '' @ string_of_nat page)) s) of
        (Inr pageData, s') \<Rightarrow>
          scrapeAnimePages_loop w pages (results @ pageData) (delay_ms (delay (config s')) s')
      | (Inl e, s') \<Rightarrow>
          scrapeAnimePages_loop w pages results
            (emit (LogError (''Error scraping page '' @ string_of_nat page @ '':'') e) s'))"

definition scrapeAnimePages :: "env \<Rightarrow> nat list \<Rightarrow> scraper \<Rightarrow> ScrapedAnimeData list \<times> scraper" where
  "scrapeAnimePages w pages s = scrapeAnimePages_loop w pages [] s"

text \<open>
  The constructor: the defaults, which the caller's configuration overrides field by
  field (\<open>new_ScrapingService\<close> takes the merged configuration), a retry service
  built with \<open>config.retries\<close>, and no browser.
\<close>

definition default_config :: ScrapingConfig where
  "default_config =
     \<lparr>usePuppeteer = False, timeout = 30000, retries = 3, delay = 1000,
      userAgent = ''Mozilla/5.0 (Windows NT 10.0; Win64; x64) AppleWebKit/537.36 (KHTML, like Gecko) Chrome/120.0.0.0 Safari/537.36'',
      proxy = None\<rparr>"

definition new_ScrapingService :: "ScrapingConfig \<Rightarrow> scraper" where
  "new_ScrapingService c =
     \<lparr>config = c, retryService = retries c, browser = False, tabs = 0, calls = 0,
      trace = []\<rparr>"

section \<open>Notions used to state the properties\<close>

text \<open>
  A text contains a marker without regard to letter case when one of its contiguous
  pieces is the marker once lower-cased.
\<close>

definition contains_ci :: "string \<Rightarrow> string \<Rightarrow> bool" where
  "contains_ci text' marker = (\<exists>piece. sublist piece text' \<and> toLowerCase piece = marker)"

text \<open>The fields that no page content reaches, for a record scraped from \<open>url'\<close>.\<close>

definition fixed_fields :: "string \<Rightarrow> ScrapedAnimeData \<Rightarrow> bool" where
  "fixed_fields url' r =
     (description r = Some [] \<and> genres r = [] \<and> episodes r = []
      \<and> source (metadata r) = ''animeindo'' \<and> originalUrl (metadata r) = url')"

text \<open>The error lines of the log, in order.\<close>

fun errors_logged :: "event list \<Rightarrow> (string \<times> exn) list" where
  "errors_logged [] = []"
| "errors_logged (LogError m e # t) = (m, e) # errors_logged t"
| "errors_logged (ev # t) = errors_logged t"

text \<open>The title and the image URL that \<open>extractAnimeData\<close> reads from an element.\<close>

definition item_title :: "episode_fields \<Rightarrow> string" where
  "item_title f = trim (title_text f)"

definition item_imageUrl :: "episode_fields \<Rightarrow> string" where
  "item_imageUrl f = (case img_src f of None \<Rightarrow> [] | Some u \<Rightarrow> u)"

definition extractable :: "episode_fields \<Rightarrow> bool" where
  "extractable f = (item_title f \<noteq> [] \<and> item_imageUrl f \<noteq> [])"

text \<open>What identifies a record in a result: its title, image URL and page.\<close>

definition summary :: "ScrapedAnimeData \<Rightarrow> string \<times> string \<times> string" where
  "summary r = (title r, imageUrl r, originalUrl (metadata r))"


text \<open>The class \<open>[a-z0-9-]\<close>.\<close>

definition slug_char :: "char \<Rightarrow> bool" where
  "slug_char c =
     (let n = (of_char c :: int)
      in (97 \<le> n \<and> n \<le> 122) \<or> (48 \<le> n \<and> n \<le> 57) \<or> c = CHR ''-'')"

section \<open>Worlds for the concrete runs\<close>

definition episode :: "string \<Rightarrow> string \<Rightarrow> cheerio_element" where
  "episode t u = Inr \<lparr>img_src = Some u, title_text = t, status_text = ''Ongoing'', time_text = []\<rparr>"

definition blank_page :: page_behaviour where
  "blank_page =
     \<lparr>newPage = None, setViewport = None, setUserAgent = None, goto = None,
      waitForSelector = None, evaluate = Inr []\<rparr>"

text \<open>Page 2 answers 503 at every attempt; the other pages carry two episodes.\<close>

definition world_page2_down :: env where
  "world_page2_down =
     \<lparr>axios_get = (\<lambda>k u. if u = page_url 2 then Inl (AxiosError (Some 503))
                          else if u = page_url 1
                          then Inr [episode ''Naruto'' ''n.jpg'', episode ''Bleach'' ''b.jpg'']
                          else Inr [episode ''One Piece'' ''o.jpg'', episode ''Monster'' ''m.jpg'']),
      render = (\<lambda>k u. blank_page),
      new_Date = (\<lambda>k i. 0),
      launch = None\<rparr>"

text \<open>The same world, but page 2 is served and holds no episode.\<close>

definition world_page2_empty :: env where
  "world_page2_empty =
     world_page2_down
       \<lparr>axios_get := (\<lambda>k u. if u = page_url 2 then Inr []
                            else axios_get world_page2_down k u)\<rparr>"

text \<open>
  A rendered page with one episode whose title link holds only a space and whose
  image has a \<open>src\<close>.
\<close>

definition world_blank_title :: env where
  "world_blank_title =
     \<lparr>axios_get = (\<lambda>k u. Inr []),
      render = (\<lambda>k u. blank_page
        \<lparr>evaluate := Inr [Inr \<lparr>imageElement = Some \<lparr>textContent = Some [], src_attribute = Some ''n.jpg''\<rparr>,
                                titleElement = Some \<lparr>textContent = Some '' '', src_attribute = None\<rparr>,
                                statusElement = None,
                                timeElement = None\<rparr>]\<rparr>),
      new_Date = (\<lambda>k i. 0),
      launch = None\<rparr>"

text \<open>A rendered page on which the episode selector never appears.\<close>

definition world_selector_timeout :: env where
  "world_selector_timeout =
     \<lparr>axios_get = (\<lambda>k u. Inr []),
      render = (\<lambda>k u. blank_page\<lparr>waitForSelector := Some (Error ''Waiting for selector failed'')\<rparr>),
      new_Date = (\<lambda>k i. 0),
      launch = None\<rparr>"

text \<open>A static page with one episode titled \<open>!!!\<close>.\<close>

definition world_bang :: env where
  "world_bang =
     \<lparr>axios_get = (\<lambda>k u. Inr [episode ''!!!'' ''n.jpg'']),
      render = (\<lambda>k u. blank_page),
      new_Date = (\<lambda>k i. 0),
      launch = None\<rparr>"

section \<open>Facts about the text transforms\<close>

lemma str_includes_sublist: "str_includes s t \<longleftrightarrow> sublist t s"
  by (induction s) (auto simp: sublist_Cons_right)

lemma contains_ci_iff: "contains_ci t m \<longleftrightarrow> str_includes (toLowerCase t) m"
proof
  assume "contains_ci t m"
  then obtain u where "sublist u t" "toLowerCase u = m" by (auto simp: contains_ci_def)
  then show "str_includes (toLowerCase t) m"
    unfolding str_includes_sublist toLowerCase_def sublist_def by (metis map_append)
next
  assume "str_includes (toLowerCase t) m"
  then obtain ps ss where "map toLowerCase_char t = ps @ m @ ss"
    unfolding str_includes_sublist toLowerCase_def sublist_def by auto
  then obtain ps' r where r: "t = ps' @ r" "m @ ss = map toLowerCase_char r"
    unfolding map_eq_append_conv by blast
  from r(2) obtain u ss' where "r = u @ ss'" "m = map toLowerCase_char u"
    unfolding append_eq_map_conv by blast
  with r have "t = ps' @ u @ ss'" "map toLowerCase_char u = m" by simp_all
  then show "contains_ci t m"
    unfolding contains_ci_def toLowerCase_def sublist_def by blast
qed

lemma set_replace_runs: "set (replace_runs P s) \<subseteq> insert CHR ''-'' {c \<in> set s. \<not> P c}"
proof (induction P s rule: replace_runs.induct)
  case (1 P)
  then show ?case by simp
next
  case (2 P c cs)
  show ?case
  proof (cases "P c")
    case True
    with 2 have "set (replace_runs P (dropWhile P cs)) \<subseteq> insert CHR ''-'' {c \<in> set (dropWhile P cs). \<not> P c}" by simp
    moreover have "set (dropWhile P cs) \<subseteq> set cs" by (simp add: set_dropWhileD subsetI)
    ultimately show ?thesis using True by auto
  next
    case False
    with 2 show ?thesis by auto
  qed
qed

lemma set_trim: "set (trim s) \<subseteq> set s"
  unfolding trim_def by (metis set_dropWhileD set_rev subsetI)

lemma generateSlug_chars: "c \<in> set (generateSlug t) \<Longrightarrow> slug_char c"
proof -
  assume a: "c \<in> set (generateSlug t)"
  let ?f = "filter is_slug_source_char (toLowerCase t)"
  from a have "c \<in> set (replace_runs is_hyphen (replace_runs is_space ?f))"
    using set_trim unfolding generateSlug_def by blast
  then have "c = CHR ''-'' \<or> c \<in> set (replace_runs is_space ?f)"
    using set_replace_runs[of is_hyphen] by blast
  then have "c = CHR ''-'' \<or> (c \<in> set ?f \<and> \<not> is_space c)"
    using set_replace_runs[of is_space ?f] by blast
  then show ?thesis
    by (auto simp: slug_char_def is_slug_source_char_def is_hyphen_def Let_def)
qed

lemma no_hyphen_run_replace: "\<not> sublist ''--'' (replace_runs is_hyphen s)"
proof (induction "is_hyphen" s rule: replace_runs.induct)
  case 1
  then show ?case by simp
next
  case (2 c cs)
  show ?case
  proof (cases "is_hyphen c")
    case True
    let ?d = "dropWhile is_hyphen cs"
    have ih: "\<not> sublist ''--'' (replace_runs is_hyphen ?d)" using 2 True by simp
    have "\<not> prefix ''-'' (replace_runs is_hyphen ?d)"
    proof (cases ?d)
      case Nil
      show ?thesis unfolding Nil by simp
    next
      case (Cons x xs)
      then have "\<not> is_hyphen x" by (metis hd_dropWhile list.sel(1) list.distinct(1))
      then show ?thesis unfolding Cons by (simp add: is_hyphen_def)
    qed
    with ih True show ?thesis by (auto simp: sublist_Cons_right)
  next
    case False
    with 2 show ?thesis by (auto simp: sublist_Cons_right is_hyphen_def)
  qed
qed

lemma sublist_trim: "sublist (trim s) s"
proof -
  have a: "suffix (dropWhile is_space s) s" by (simp add: suffix_dropWhile)
  have "suffix (dropWhile is_space (rev (dropWhile is_space s))) (rev (dropWhile is_space s))"
    by (simp add: suffix_dropWhile)
  then have "prefix (trim s) (dropWhile is_space s)"
    unfolding trim_def by (metis rev_rev_ident suffix_to_prefix)
  with a show ?thesis
    by (meson prefix_imp_sublist suffix_imp_sublist sublist_order.order_trans)
qed

lemma generateSlug_no_hyphen_run: "\<not> sublist ''--'' (generateSlug t)"
  unfolding generateSlug_def
  using no_hyphen_run_replace sublist_trim sublist_order.order_trans by blast


section \<open>Facts about the extraction loop\<close>

lemma each_episode_Cons_fst:
  "fst (each_episode clock u i (element # rest)) =
     (case fst (extractAnimeData (clock i) element u) of Some a \<Rightarrow> [a] | None \<Rightarrow> [])
     @ fst (each_episode clock u (Suc i) rest)"
  by (simp add: split_beta split: option.splits)



section \<open>What a fetch leaves alone\<close>

lemma errors_logged_append [simp]:
  "errors_logged (xs @ ys) = errors_logged xs @ errors_logged ys"
  by (induction xs rule: errors_logged.induct) auto

lemma evaluate_callback_log:
  "ev \<in> set (snd (evaluate_callback doc)) \<Longrightarrow> \<exists>m e. ev = ConsoleError m e"
  by (induction doc) (auto simp: evaluate_episode_def split_beta split: sum.splits option.splits)

lemma errors_logged_console:
  "(\<And>ev. ev \<in> set l \<Longrightarrow> \<exists>m e. ev = ConsoleError m e) \<Longrightarrow> errors_logged l = []"
  by (induction l rule: errors_logged.induct) auto

lemma page_try_state:
  assumes "page_try w k b u s = (r, s')"
  shows "config s' = config s \<and> retryService s' = retryService s \<and> browser s' = browser s
     \<and> tabs s' = tabs s \<and> calls s' = calls s
     \<and> (\<exists>mid. trace s' = trace s @ mid \<and> NewPage \<notin> set mid \<and> PageClose \<notin> set mid
            \<and> errors_logged mid = [])"
proof -
  have l: "errors_logged (snd (evaluate_callback doc)) = []" for doc
    using evaluate_callback_log errors_logged_console by blast
  have n: "NewPage \<notin> set (snd (evaluate_callback doc)) \<and> PageClose \<notin> set (snd (evaluate_callback doc))" for doc
    using evaluate_callback_log by blast
  from assms show ?thesis
    using l n
    by (auto simp: page_try_def emit_def Let_def split_beta
        split: option.splits sum.splits)
qed

lemma scrapeWithPuppeteer_state:
  assumes "scrapeWithPuppeteer w u s = (r, s')"
  shows "config s' = config s \<and> retryService s' = retryService s \<and> browser s' = browser s
     \<and> tabs s' = tabs s \<and> errors_logged (trace s') = errors_logged (trace s)"
proof (cases "browser s \<and> newPage (render w (calls s) u) = None")
  case False
  with assms show ?thesis
    by (cases "browser s"; cases "newPage (render w (calls s) u)")
       (auto simp: scrapeWithPuppeteer_def Let_def)
next
  case True
  let ?s1 = "emit NewPage (s\<lparr>calls := Suc (calls s), tabs := Suc (tabs s)\<rparr>)"
  obtain r2 s2 where p: "page_try w (calls s) (render w (calls s) u) u ?s1 = (r2, s2)"
    by (cases "page_try w (calls s) (render w (calls s) u) u ?s1") auto
  from True assms p have "s' = emit PageClose (s2\<lparr>tabs := tabs s2 - 1\<rparr>)"
    by (simp add: scrapeWithPuppeteer_def Let_def)
  with page_try_state [OF p] show ?thesis
    by (auto simp: emit_def)
qed

lemma scrapeWithCheerio_state:
  assumes "scrapeWithCheerio w u s = (r, s')"
  shows "config s' = config s \<and> retryService s' = retryService s \<and> browser s' = browser s
     \<and> tabs s' = tabs s"
  using assms
  by (auto simp: scrapeWithCheerio_def emit_def delay_ms_def Let_def split_beta
      split: sum.splits if_splits)

lemma fetch_state:
  assumes "fetch w u s = (r, s')"
  shows "config s' = config s \<and> retryService s' = retryService s \<and> browser s' = browser s
     \<and> tabs s' = tabs s"
  using assms scrapeWithCheerio_state scrapeWithPuppeteer_state
  unfolding fetch_def by (metis (full_types))

lemma execute_state:
  assumes "\<And>s r s'. operation s = (r, s') \<Longrightarrow>
     config s' = config s \<and> retryService s' = retryService s \<and> browser s' = browser s
     \<and> tabs s' = tabs s"
  shows "execute n operation s = (r, s') \<Longrightarrow>
     config s' = config s \<and> retryService s' = retryService s \<and> browser s' = browser s
     \<and> tabs s' = tabs s"
proof (induction n arbitrary: s)
  case 0
  with assms show ?case by simp
next
  case (Suc n)
  obtain r1 s1 where o: "operation s = (r1, s1)" by (cases "operation s") auto
  show ?case
  proof (cases r1)
    case (Inr v)
    with Suc.prems o assms [OF o] show ?thesis by auto
  next
    case (Inl e)
    with Suc.prems o have "execute n operation (emit RetryWait s1) = (r, s')" by simp
    from Suc.IH [OF this] assms [OF o] show ?thesis by (simp add: emit_def)
  qed
qed

lemma scrapeAnimePage_state:
  "scrapeAnimePage w page s = (r, s') \<Longrightarrow>
     config s' = config s \<and> retryService s' = retryService s \<and> browser s' = browser s
     \<and> tabs s' = tabs s"
  unfolding scrapeAnimePage_def
  using execute_state [of "fetch w (page_url page)"] fetch_state by blast

section \<open>Where the records of a run come from\<close>

lemma map_items_fixed: "r \<in> set (map_items clock u i items) \<Longrightarrow> fixed_fields u r"
  by (induction items arbitrary: i) (auto simp: fixed_fields_def)

lemma extractAnimeData_fixed:
  "fst (extractAnimeData now element u) = Some r \<Longrightarrow> fixed_fields u r"
  by (auto simp: extractAnimeData_def fixed_fields_def Let_def split: sum.splits if_splits)

lemma each_episode_fixed:
  "r \<in> set (fst (each_episode clock u i elements)) \<Longrightarrow> fixed_fields u r"
proof (induction elements arbitrary: i)
  case Nil
  then show ?case by simp
next
  case (Cons element rest)
  from Cons.prems have "(fst (extractAnimeData (clock i) element u) = Some r)
      \<or> r \<in> set (fst (each_episode clock u (Suc i) rest))"
    by (auto simp: each_episode_Cons_fst simp del: each_episode.simps split: option.splits)
  with Cons.IH extractAnimeData_fixed show ?case by blast
qed

lemma scrapeWithCheerio_fixed:
  "fst (scrapeWithCheerio w u s) = Inr l \<Longrightarrow> r \<in> set l \<Longrightarrow> fixed_fields u r"
  using each_episode_fixed [of r "new_Date w (calls s)" u 0]
  by (auto simp: scrapeWithCheerio_def Let_def split_beta split: sum.splits)

lemma page_try_fixed:
  "fst (page_try w k b u s) = Inr l \<Longrightarrow> r \<in> set l \<Longrightarrow> fixed_fields u r"
  using map_items_fixed [of r "new_Date w k" u 0]
  by (auto simp: page_try_def Let_def split_beta split: sum.splits option.splits)

lemma scrapeWithPuppeteer_fixed:
  "fst (scrapeWithPuppeteer w u s) = Inr l \<Longrightarrow> r \<in> set l \<Longrightarrow> fixed_fields u r"
  using page_try_fixed [of w "calls s" "render w (calls s) u" u _ l r]
  by (auto simp: scrapeWithPuppeteer_def Let_def split_beta split: if_splits option.splits)

lemma fetch_fixed:
  "fst (fetch w u s) = Inr l \<Longrightarrow> r \<in> set l \<Longrightarrow> fixed_fields u r"
  using scrapeWithCheerio_fixed scrapeWithPuppeteer_fixed
  unfolding fetch_def by (metis (full_types))

lemma execute_result:
  assumes "\<And>s v. fst (operation s) = Inr v \<Longrightarrow> P v"
  shows "fst (execute n operation s) = Inr v \<Longrightarrow> P v"
proof (induction n arbitrary: s)
  case 0
  with assms show ?case by simp
next
  case (Suc n)
  obtain r1 s1 where o: "operation s = (r1, s1)" by (cases "operation s") auto
  show ?case
  proof (cases r1)
    case (Inr v1)
    with Suc.prems o assms [of s v1] show ?thesis by simp
  next
    case (Inl e)
    with Suc.prems o Suc.IH [of "emit RetryWait s1"] show ?thesis by simp
  qed
qed

lemma scrapeAnimePage_fixed:
  assumes "fst (scrapeAnimePage w page s) = Inr l" and "r \<in> set l"
  shows "fixed_fields (page_url page) r"
proof -
  have "\<forall>r\<in>set l. fixed_fields (page_url page) r"
    using assms(1) unfolding scrapeAnimePage_def
    by (rule execute_result [rotated]) (use fetch_fixed in blast)
  with assms(2) show ?thesis by blast
qed

lemma loop_results:
  assumes "\<And>page s l r. fst (scrapeAnimePage w page s) = Inr l \<Longrightarrow> r \<in> set l \<Longrightarrow> P page r"
  shows "r \<in> set (fst (scrapeAnimePages_loop w pages results s)) \<Longrightarrow>
         r \<in> set results \<or> (\<exists>page\<in>set pages. P page r)"
proof (induction pages arbitrary: results s)
  case Nil
  then show ?case by simp
next
  case (Cons page pages)
  let ?s1 = "emit (LogInfo (''Scraping page '' @ string_of_nat page)) s"
  obtain r1 s1 where o: "scrapeAnimePage w page ?s1 = (r1, s1)"
    by (cases "scrapeAnimePage w page ?s1") auto
  show ?case
  proof (cases r1)
    case (Inr pageData)
    with Cons.prems o have "r \<in> set (fst (scrapeAnimePages_loop w pages (results @ pageData)
        (delay_ms (delay (config s1)) s1)))" by simp
    from Cons.IH [OF this] have "r \<in> set results \<or> r \<in> set pageData \<or> (\<exists>page\<in>set pages. P page r)"
      by auto
    moreover have "r \<in> set pageData \<Longrightarrow> P page r"
      using assms [of page ?s1 pageData r] o Inr by simp
    ultimately show ?thesis by auto
  next
    case (Inl e)
    with Cons.prems o Cons.IH show ?thesis by auto
  qed
qed

section \<open>A rendered run without a browser\<close>

lemma fetch_no_browser:
  "usePuppeteer (config s) \<Longrightarrow> \<not> browser s \<Longrightarrow>
     fetch w u s = (Inl (Error ''Browser not initialized''), s)"
  by (simp add: fetch_def scrapeWithPuppeteer_def)

lemma execute_no_browser:
  "usePuppeteer (config s) \<Longrightarrow> \<not> browser s \<Longrightarrow>
     \<exists>s'. execute n (fetch w u) s = (Inl (Error ''Browser not initialized''), s')
          \<and> config s' = config s \<and> browser s' = browser s
          \<and> retryService s' = retryService s \<and> Launch \<notin> set (trace s') - set (trace s)"
proof (induction n arbitrary: s)
  case 0
  then show ?case by (simp add: fetch_no_browser)
next
  case (Suc n)
  let ?s1 = "emit RetryWait s"
  from Suc.prems have "usePuppeteer (config ?s1)" "\<not> browser ?s1" by (simp_all add: emit_def)
  from Suc.IH [OF this] obtain s' where
    "execute n (fetch w u) ?s1 = (Inl (Error ''Browser not initialized''), s')"
    "config s' = config ?s1" "browser s' = browser ?s1" "retryService s' = retryService ?s1"
    "Launch \<notin> set (trace s') - set (trace ?s1)"
    by blast
  with Suc.prems show ?case by (auto simp: fetch_no_browser emit_def)
qed

lemma loop_no_browser:
  "usePuppeteer (config s) \<Longrightarrow> \<not> browser s \<Longrightarrow>
     fst (scrapeAnimePages_loop w pages results s) = results
     \<and> \<not> browser (snd (scrapeAnimePages_loop w pages results s))
     \<and> Launch \<notin> set (trace (snd (scrapeAnimePages_loop w pages results s))) - set (trace s)"
proof (induction pages arbitrary: s)
  case Nil
  then show ?case by simp
next
  case (Cons page pages)
  let ?s1 = "emit (LogInfo (''Scraping page '' @ string_of_nat page)) s"
  from Cons.prems have p: "usePuppeteer (config ?s1)" "\<not> browser ?s1" by (simp_all add: emit_def)
  from execute_no_browser [OF p, of "retryService ?s1" w "page_url page"] obtain s2 where
    e: "scrapeAnimePage w page ?s1 = (Inl (Error ''Browser not initialized''), s2)"
    and c: "config s2 = config ?s1" "browser s2 = browser ?s1"
      "Launch \<notin> set (trace s2) - set (trace ?s1)"
    unfolding scrapeAnimePage_def by blast
  let ?s3 = "emit (LogError (''Error scraping page '' @ string_of_nat page @ '':'')
             (Error ''Browser not initialized'')) s2"
  from c p have "usePuppeteer (config ?s3)" "\<not> browser ?s3" by (simp_all add: emit_def)
  from Cons.IH [OF this] e c show ?case by (auto simp: emit_def)
qed

section \<open>The page loop, piece by piece\<close>

lemma loop_append:
  "scrapeAnimePages_loop w (ps @ qs) results s =
     (case scrapeAnimePages_loop w ps results s of
        (results1, s1) \<Rightarrow> scrapeAnimePages_loop w qs results1 s1)"
  by (induction ps arbitrary: results s) (auto split: prod.splits sum.splits)

lemma loop_state:
  "scrapeAnimePages_loop w pages results s = (results', s') \<Longrightarrow>
     config s' = config s \<and> retryService s' = retryService s \<and> browser s' = browser s
     \<and> tabs s' = tabs s"
proof (induction pages arbitrary: results s)
  case Nil
  then show ?case by simp
next
  case (Cons page pages)
  let ?s1 = "emit (LogInfo (''Scraping page '' @ string_of_nat page)) s"
  obtain r1 s1 where o: "scrapeAnimePage w page ?s1 = (r1, s1)"
    by (cases "scrapeAnimePage w page ?s1") auto
  note st = scrapeAnimePage_state [OF o]
  show ?case
  proof (cases r1)
    case (Inr pageData)
    with Cons.prems o have "scrapeAnimePages_loop w pages (results @ pageData)
        (delay_ms (delay (config s1)) s1) = (results', s')" by simp
    from Cons.IH [OF this] st show ?thesis by (simp add: emit_def delay_ms_def)
  next
    case (Inl e)
    with Cons.prems o have "scrapeAnimePages_loop w pages results
        (emit (LogError (''Error scraping page '' @ string_of_nat page @ '':'') e) s1)
        = (results', s')" by simp
    from Cons.IH [OF this] st show ?thesis by (simp add: emit_def)
  qed
qed

section \<open>One page of the loop\<close>

lemma execute_first_success:
  "operation s = (Inr v, s') \<Longrightarrow> execute n operation s = (Inr v, s')"
  by (cases n) simp_all

lemma each_episode_pair:
  assumes "extractable a" and "extractable b"
  shows "\<exists>ra rb. each_episode clock u 0 [Inr a, Inr b] = ([ra, rb], [])
           \<and> summary ra = (item_title a, item_imageUrl a, u)
           \<and> summary rb = (item_title b, item_imageUrl b, u)"
  using assms
  by (simp add: extractAnimeData_def extractable_def item_title_def item_imageUrl_def
      summary_def Let_def)

lemma fetch_static_pair:
  assumes "\<not> usePuppeteer (config s)" and "axios_get w (calls s) u = Inr [Inr a, Inr b]"
    and "extractable a" and "extractable b"
  shows "\<exists>ra rb s'. fetch w u s = (Inr [ra, rb], s')
           \<and> summary ra = (item_title a, item_imageUrl a, u)
           \<and> summary rb = (item_title b, item_imageUrl b, u)
           \<and> errors_logged (trace s') = errors_logged (trace s)"
proof -
  from each_episode_pair [OF assms(3,4), of "new_Date w (calls s)" u]
  obtain ra rb where e: "each_episode (new_Date w (calls s)) u 0 [Inr a, Inr b] = ([ra, rb], [])"
    and s: "summary ra = (item_title a, item_imageUrl a, u)"
      "summary rb = (item_title b, item_imageUrl b, u)"
    by blast
  from assms(1,2) e have "fetch w u s =
      (Inr [ra, rb], (emit (AxiosGet u) (s\<lparr>calls := Suc (calls s)\<rparr>))
         \<lparr>trace := trace (emit (AxiosGet u) (s\<lparr>calls := Suc (calls s)\<rparr>)) @ []\<rparr>)"
    by (simp add: fetch_def scrapeWithCheerio_def Let_def del: each_episode.simps)
  with s show ?thesis by (simp add: emit_def)
qed

lemma fetch_fail_log:
  assumes "fetch w u s = (Inl e, s')"
  shows "errors_logged (trace s') = errors_logged (trace s)"
proof (cases "usePuppeteer (config s)")
  case True
  with assms scrapeWithPuppeteer_state [of w u s "Inl e" s'] show ?thesis
    by (simp add: fetch_def)
next
  case False
  with assms show ?thesis
    by (auto simp: fetch_def scrapeWithCheerio_def Let_def emit_def delay_ms_def split_beta
        split: sum.splits if_splits)
qed

lemma execute_all_fail:
  assumes "\<And>s'. config s' = c \<Longrightarrow> browser s' = b \<Longrightarrow> isl (fst (fetch w u s'))"
  shows "config s = c \<Longrightarrow> browser s = b \<Longrightarrow>
     \<exists>e s'. execute n (fetch w u) s = (Inl e, s') \<and> config s' = c \<and> browser s' = b
          \<and> errors_logged (trace s') = errors_logged (trace s)"
proof (induction n arbitrary: s)
  case 0
  obtain r s1 where f: "fetch w u s = (r, s1)" by (cases "fetch w u s") auto
  with assms [OF 0] obtain e where "r = Inl e" by (cases r) auto
  with f fetch_state [OF f] fetch_fail_log [of w u s e s1] 0 show ?case by simp
next
  case (Suc n)
  obtain r s1 where f: "fetch w u s = (r, s1)" by (cases "fetch w u s") auto
  with assms [OF Suc.prems] obtain e where r: "r = Inl e" by (cases r) auto
  let ?s2 = "emit RetryWait s1"
  from fetch_state [OF f] Suc.prems have "config ?s2 = c" "browser ?s2 = b"
    by (simp_all add: emit_def)
  from Suc.IH [OF this] obtain e' s' where
    "execute n (fetch w u) ?s2 = (Inl e', s')" "config s' = c" "browser s' = b"
    "errors_logged (trace s') = errors_logged (trace ?s2)"
    by blast
  with f r fetch_fail_log [of w u s e s1] show ?case by (auto simp: emit_def)
qed

lemma step_pair:
  assumes "\<And>s'. config s' = c \<Longrightarrow> browser s' = b \<Longrightarrow>
       \<exists>ra rb s''. fetch w (page_url p) s' = (Inr [ra, rb], s'')
          \<and> summary ra = x \<and> summary rb = y
          \<and> errors_logged (trace s'') = errors_logged (trace s')"
    and "config s = c" and "browser s = b"
  shows "\<exists>ra rb s'. scrapeAnimePages_loop w (p # ps) results s
             = scrapeAnimePages_loop w ps (results @ [ra, rb]) s'
           \<and> summary ra = x \<and> summary rb = y
           \<and> config s' = c \<and> browser s' = b
           \<and> errors_logged (trace s') = errors_logged (trace s)"
proof -
  let ?s1 = "emit (LogInfo (''Scraping page '' @ string_of_nat p)) s"
  have n: "config ?s1 = c" "browser ?s1 = b" using assms(2,3) by (simp_all add: emit_def)
  from assms(1) [OF n] obtain ra rb s2 where
    f: "fetch w (page_url p) ?s1 = (Inr [ra, rb], s2)"
    and s: "summary ra = x" "summary rb = y"
    and c: "errors_logged (trace s2) = errors_logged (trace ?s1)"
    by blast
  from execute_first_success [where operation = "fetch w (page_url p)", OF f]
  have "scrapeAnimePage w p ?s1 = (Inr [ra, rb], s2)" by (simp add: scrapeAnimePage_def)
  then have l: "scrapeAnimePages_loop w (p # ps) results s
      = scrapeAnimePages_loop w ps (results @ [ra, rb]) (delay_ms (delay (config s2)) s2)"
    by simp
  have "config (delay_ms (delay (config s2)) s2) = c
      \<and> browser (delay_ms (delay (config s2)) s2) = b
      \<and> errors_logged (trace (delay_ms (delay (config s2)) s2)) = errors_logged (trace s)"
    using c n fetch_state [OF f] by (simp add: emit_def delay_ms_def)
  with l s show ?thesis by blast
qed

lemma step_fail:
  assumes "\<And>s'. config s' = c \<Longrightarrow> browser s' = b \<Longrightarrow> isl (fst (fetch w (page_url p) s'))"
    and "config s = c" and "browser s = b"
  shows "\<exists>e s'. scrapeAnimePages_loop w (p # ps) results s
             = scrapeAnimePages_loop w ps results s'
           \<and> config s' = c \<and> browser s' = b
           \<and> errors_logged (trace s')
             = errors_logged (trace s) @ [(''Error scraping page '' @ string_of_nat p @ '':'', e)]"
proof -
  let ?s1 = "emit (LogInfo (''Scraping page '' @ string_of_nat p)) s"
  have n: "config ?s1 = c" "browser ?s1 = b" using assms(2,3) by (simp_all add: emit_def)
  from execute_all_fail [where w = w and u = "page_url p" and c = c and b = b, OF assms(1) n,
      of "retryService ?s1"]
  obtain e s2 where
    f: "scrapeAnimePage w p ?s1 = (Inl e, s2)"
    and c: "config s2 = c" "browser s2 = b"
      "errors_logged (trace s2) = errors_logged (trace ?s1)"
    unfolding scrapeAnimePage_def by blast
  let ?s3 = "emit (LogError (''Error scraping page '' @ string_of_nat p @ '':'') e) s2"
  from f have l: "scrapeAnimePages_loop w (p # ps) results s
      = scrapeAnimePages_loop w ps results ?s3"
    by simp
  have "config ?s3 = c \<and> browser ?s3 = b
      \<and> errors_logged (trace ?s3)
        = errors_logged (trace s) @ [(''Error scraping page '' @ string_of_nat p @ '':'', e)]"
    using c by (simp add: emit_def)
  with l show ?thesis by blast
qed

section \<open>The static path keeps no empty title\<close>

lemma extractAnimeData_nonempty:
  "fst (extractAnimeData now element u) = Some r \<Longrightarrow> title r \<noteq> [] \<and> imageUrl r \<noteq> []"
  by (auto simp: extractAnimeData_def Let_def split: sum.splits if_splits)

lemma each_episode_nonempty:
  "r \<in> set (fst (each_episode clock u i elements)) \<Longrightarrow> title r \<noteq> [] \<and> imageUrl r \<noteq> []"
proof (induction elements arbitrary: i)
  case Nil
  then show ?case by simp
next
  case (Cons element rest)
  from Cons.prems have "(fst (extractAnimeData (clock i) element u) = Some r)
      \<or> r \<in> set (fst (each_episode clock u (Suc i) rest))"
    by (auto simp: each_episode_Cons_fst simp del: each_episode.simps split: option.splits)
  with Cons.IH extractAnimeData_nonempty show ?case by blast
qed

lemma scrapeWithCheerio_nonempty:
  "fst (scrapeWithCheerio w u s) = Inr l \<Longrightarrow> r \<in> set l \<Longrightarrow>
     title r \<noteq> [] \<and> imageUrl r \<noteq> []"
  using each_episode_nonempty [of r "new_Date w (calls s)" u 0]
  by (auto simp: scrapeWithCheerio_def Let_def split_beta split: sum.splits)

section \<open>Slugs\<close>

text \<open>
  C3. The claim: for every title the slug has only characters of \<open>[a-z0-9-]\<close>, no
  hyphen at either end and no run of hyphens. The first and the last part hold
  (\<open>generateSlug_chars\<close>, \<open>generateSlug_no_hyphen_run\<close>). The middle part does not:
  the last step, \<open>trim()\<close>, strips white space, and by then every white space
  character has become a hyphen, so a hyphen at either end stays. Here the code is
  run on two such titles.
\<close>

theorem generateSlug_keeps_hyphen_at_ends:
  "generateSlug ''Naruto !'' = ''naruto-'' \<and> generateSlug ''- Naruto'' = ''-naruto''"
  by code_simp

text \<open>
  C10. Some non-empty title without any character of \<open>[a-z0-9]\<close> has the empty
  slug, and the engine returns a record with that title and the empty slug: the
  title \<open>!!!\<close>, at the level of the extractor and of a whole run.
\<close>

theorem empty_slug_of_nonempty_title:
  "generateSlug ''!!!'' = []
   \<and> map_option (\<lambda>r. (title r, slug r))
         (fst (extractAnimeData now (episode ''!!!'' ''n.jpg'') baseUrl))
       = Some (''!!!'', [])
   \<and> map (\<lambda>r. (title r, slug r))
         (fst (scrapeAnimePages world_bang [1] (new_ScrapingService default_config)))
       = [(''!!!'', [])]"
proof -
  have a: "generateSlug ''!!!'' = []" by code_simp
  have b: "trim ''!!!'' = ''!!!''" by code_simp
  have c: "map_option (\<lambda>r. (title r, slug r))
             (fst (extractAnimeData now (episode ''!!!'' ''n.jpg'') baseUrl))
           = Some (''!!!'', [])"
    by (simp add: extractAnimeData_def episode_def a b)
  have d: "map (\<lambda>r. (title r, slug r))
             (fst (scrapeAnimePages world_bang [1] (new_ScrapingService default_config)))
           = [(''!!!'', [])]"
    by code_simp
  from a c d show ?thesis by simp
qed

section \<open>Empty titles\<close>

text \<open>
  C2. The claim: no record with an empty title or an empty image URL is produced, on
  either path. The rendered path keeps an episode as soon as its title link and its
  image exist, whatever they hold, and maps every kept item to a record; the static
  path does drop such an item (\<open>scrapeWithCheerio_nonempty\<close>). Here the code is
  run, browser initialised, on a page whose one episode has a title link holding a
  single space: the record has the empty title.
\<close>

theorem rendered_path_yields_empty_title:
  "map (\<lambda>r. (title r, imageUrl r))
     (fst (scrapeAnimePages world_blank_title [1]
        (snd (initializeBrowser world_blank_title
           (new_ScrapingService (default_config\<lparr>usePuppeteer := True\<rparr>))))))
   = [([], ''n.jpg'')]"
  by code_simp

section \<open>Status text\<close>

text \<open>
  C7. The claim: a text containing a listed marker, in any letter case, is mapped to
  that marker's category, and a text with no marker to \<open>ongoing\<close>. A text can hold
  markers of two categories; the first test that matches then decides. Here a text
  contains \<open>completed\<close> and is mapped to \<open>ongoing\<close>.
\<close>

theorem parseStatus_two_markers_counterexample:
  "contains_ci ''Completed (was ongoing)'' ''completed''
   \<and> parseStatus ''Completed (was ongoing)'' = ''ongoing''"
  unfolding contains_ci_iff by code_simp

text \<open>
  C7, as amended: the markers are tried in the order ongoing, completed, upcoming,
  each in English and Indonesian and in any letter case, and the first category with
  a marker in the text is the result; a text with no marker is \<open>ongoing\<close>.
\<close>

theorem parseStatus_by_priority:
  "(contains_ci t ''ongoing'' \<or> contains_ci t ''berlangsung''
      \<longrightarrow> parseStatus t = ''ongoing'')
   \<and> (\<not> contains_ci t ''ongoing'' \<and> \<not> contains_ci t ''berlangsung''
        \<and> (contains_ci t ''completed'' \<or> contains_ci t ''selesai'')
      \<longrightarrow> parseStatus t = ''completed'')
   \<and> (\<not> contains_ci t ''ongoing'' \<and> \<not> contains_ci t ''berlangsung''
        \<and> \<not> contains_ci t ''completed'' \<and> \<not> contains_ci t ''selesai''
        \<and> (contains_ci t ''upcoming'' \<or> contains_ci t ''akan datang'')
      \<longrightarrow> parseStatus t = ''upcoming'')
   \<and> (\<not> contains_ci t ''ongoing'' \<and> \<not> contains_ci t ''berlangsung''
        \<and> \<not> contains_ci t ''completed'' \<and> \<not> contains_ci t ''selesai''
        \<and> \<not> contains_ci t ''upcoming'' \<and> \<not> contains_ci t ''akan datang''
      \<longrightarrow> parseStatus t = ''ongoing'')"
  unfolding contains_ci_iff parseStatus_def Let_def by simp

theorem parseStatus_by_priority_witness:
  "contains_ci ''Sedang BERLANGSUNG'' ''berlangsung''
   \<and> parseStatus ''Sedang BERLANGSUNG'' = ''ongoing''
   \<and> contains_ci ''Selesai'' ''selesai'' \<and> parseStatus ''Selesai'' = ''completed''
   \<and> contains_ci ''Akan Datang'' ''akan datang'' \<and> parseStatus ''Akan Datang'' = ''upcoming''
   \<and> parseStatus ''Tamat'' = ''ongoing''"
proof -
  have a: "contains_ci ''Sedang BERLANGSUNG'' ''berlangsung''"
    unfolding contains_ci_iff by code_simp
  have b: "\<not> contains_ci ''Selesai'' ''ongoing''" "\<not> contains_ci ''Selesai'' ''berlangsung''"
    "contains_ci ''Selesai'' ''selesai''"
    unfolding contains_ci_iff by code_simp+
  have c: "\<not> contains_ci ''Akan Datang'' ''ongoing''"
    "\<not> contains_ci ''Akan Datang'' ''berlangsung''"
    "\<not> contains_ci ''Akan Datang'' ''completed''"
    "\<not> contains_ci ''Akan Datang'' ''selesai''"
    "contains_ci ''Akan Datang'' ''akan datang''"
    unfolding contains_ci_iff by code_simp+
  have d: "\<not> contains_ci ''Tamat'' ''ongoing''" "\<not> contains_ci ''Tamat'' ''berlangsung''"
    "\<not> contains_ci ''Tamat'' ''completed''" "\<not> contains_ci ''Tamat'' ''selesai''"
    "\<not> contains_ci ''Tamat'' ''upcoming''" "\<not> contains_ci ''Tamat'' ''akan datang''"
    unfolding contains_ci_iff by code_simp+
  have 1: "parseStatus ''Sedang BERLANGSUNG'' = ''ongoing''"
    using parseStatus_by_priority [of "''Sedang BERLANGSUNG''"] a
    by (elim conjE) (rule mp, assumption, rule disjI2, assumption)
  have 2: "parseStatus ''Selesai'' = ''completed''"
    using parseStatus_by_priority [of "''Selesai''"] b
    by (elim conjE) (erule mp [where P = "\<not> contains_ci ''Selesai'' ''ongoing''
        \<and> \<not> contains_ci ''Selesai'' ''berlangsung''
        \<and> (contains_ci ''Selesai'' ''completed'' \<or> contains_ci ''Selesai'' ''selesai'')"],
        intro conjI disjI2, assumption+)
  have 3: "parseStatus ''Akan Datang'' = ''upcoming''"
    using parseStatus_by_priority [of "''Akan Datang''"] c
    by (elim conjE) (erule mp [where P = "\<not> contains_ci ''Akan Datang'' ''ongoing''
        \<and> \<not> contains_ci ''Akan Datang'' ''berlangsung''
        \<and> \<not> contains_ci ''Akan Datang'' ''completed''
        \<and> \<not> contains_ci ''Akan Datang'' ''selesai''
        \<and> (contains_ci ''Akan Datang'' ''upcoming'' \<or> contains_ci ''Akan Datang'' ''akan datang'')"],
        intro conjI disjI2, assumption+)
  have 4: "parseStatus ''Tamat'' = ''ongoing''"
    using parseStatus_by_priority [of "''Tamat''"] d
    by (elim conjE) (erule mp [where P = "\<not> contains_ci ''Tamat'' ''ongoing''
        \<and> \<not> contains_ci ''Tamat'' ''berlangsung''
        \<and> \<not> contains_ci ''Tamat'' ''completed''
        \<and> \<not> contains_ci ''Tamat'' ''selesai''
        \<and> \<not> contains_ci ''Tamat'' ''upcoming''
        \<and> \<not> contains_ci ''Tamat'' ''akan datang''"],
        intro conjI, assumption+)
  from a b(3) c(5) 1 2 3 4 show ?thesis by (intro conjI)
qed

section \<open>Extraction of one element\<close>



section \<open>Fields that the page never fills\<close>

text \<open>
  C9. Every record the engine produces, on either path, has the empty description,
  no genres, no episodes, the source name \<open>animeindo\<close> and, as original URL, the URL
  of the page it was scraped from: for the records of one page, and for every record
  of a run, which comes from one of the pages of the run.
\<close>

theorem fixed_fields_of_every_record:
  "(fst (scrapeAnimePage w page s) = Inr l \<longrightarrow> (\<forall>r\<in>set l. fixed_fields (page_url page) r))
   \<and> (\<forall>r\<in>set (fst (scrapeAnimePages w pages s)).
         \<exists>page\<in>set pages. fixed_fields (page_url page) r)"
proof -
  have "\<exists>page\<in>set pages. fixed_fields (page_url page) r"
    if "r \<in> set (fst (scrapeAnimePages w pages s))" for r
    using that loop_results [of w "\<lambda>page. fixed_fields (page_url page)" r pages "[]" s]
      scrapeAnimePage_fixed
    unfolding scrapeAnimePages_def by auto
  then show ?thesis using scrapeAnimePage_fixed by blast
qed

theorem fixed_fields_of_every_record_witness:
  "\<not> isl (fst (scrapeAnimePage world_bang 1 (new_ScrapingService default_config)))
   \<and> list_all (fixed_fields (page_url 1))
        (projr (fst (scrapeAnimePage world_bang 1 (new_ScrapingService default_config))))
   \<and> length (fst (scrapeAnimePages world_blank_title [1]
        (snd (initializeBrowser world_blank_title
           (new_ScrapingService (default_config\<lparr>usePuppeteer := True\<rparr>)))))) = 1
   \<and> list_all (fixed_fields (page_url 1))
        (fst (scrapeAnimePages world_blank_title [1]
        (snd (initializeBrowser world_blank_title
           (new_ScrapingService (default_config\<lparr>usePuppeteer := True\<rparr>))))))"
proof -
  let ?s = "new_ScrapingService default_config"
  let ?t = "snd (initializeBrowser world_blank_title
           (new_ScrapingService (default_config\<lparr>usePuppeteer := True\<rparr>)))"
  have a: "\<not> isl (fst (scrapeAnimePage world_bang 1 ?s))" by code_simp
  then have "fst (scrapeAnimePage world_bang 1 ?s) = Inr (projr (fst (scrapeAnimePage world_bang 1 ?s)))"
    by simp
  with fixed_fields_of_every_record [where w = world_bang and page = 1 and s = ?s
      and l = "projr (fst (scrapeAnimePage world_bang 1 ?s))"]
  have b: "list_all (fixed_fields (page_url 1)) (projr (fst (scrapeAnimePage world_bang 1 ?s)))"
    by (simp add: list_all_iff)
  have c: "length (fst (scrapeAnimePages world_blank_title [1] ?t)) = 1" by code_simp
  from fixed_fields_of_every_record [where w = world_blank_title and pages = "[1]" and s = ?t]
  have d: "list_all (fixed_fields (page_url 1)) (fst (scrapeAnimePages world_blank_title [1] ?t))"
    by (simp add: list_all_iff)
  from a b c d show ?thesis by simp
qed

section \<open>The tab of a rendered fetch\<close>

text \<open>
  C8. A rendered fetch leaves as many tabs open as it found, however it ends. When
  it opened a tab (the browser is there and \<open>newPage\<close> resolved), what it did is:
  open the tab, steps that neither open nor close a tab, close the tab; closing is
  the last thing it does. When it opened none, it did nothing.
\<close>

theorem tab_released:
  "tabs (snd (scrapeWithPuppeteer w u s)) = tabs s
   \<and> (browser s \<and> newPage (render w (calls s) u) = None
      \<longrightarrow> (\<exists>mid. trace (snd (scrapeWithPuppeteer w u s)) = trace s @ [NewPage] @ mid @ [PageClose]
                 \<and> NewPage \<notin> set mid \<and> PageClose \<notin> set mid))
   \<and> (\<not> (browser s \<and> newPage (render w (calls s) u) = None)
      \<longrightarrow> trace (snd (scrapeWithPuppeteer w u s)) = trace s)"
proof -
  have a: "tabs (snd (scrapeWithPuppeteer w u s)) = tabs s"
    using scrapeWithPuppeteer_state [of w u s] by (cases "scrapeWithPuppeteer w u s") auto
  have b: "\<exists>mid. trace (snd (scrapeWithPuppeteer w u s)) = trace s @ [NewPage] @ mid @ [PageClose]
                 \<and> NewPage \<notin> set mid \<and> PageClose \<notin> set mid"
    if t: "browser s \<and> newPage (render w (calls s) u) = None"
  proof -
    let ?s1 = "emit NewPage (s\<lparr>calls := Suc (calls s), tabs := Suc (tabs s)\<rparr>)"
    obtain r2 s2 where p: "page_try w (calls s) (render w (calls s) u) u ?s1 = (r2, s2)"
      by (cases "page_try w (calls s) (render w (calls s) u) u ?s1") auto
    from t p have "snd (scrapeWithPuppeteer w u s) = emit PageClose (s2\<lparr>tabs := tabs s2 - 1\<rparr>)"
      by (simp add: scrapeWithPuppeteer_def Let_def)
    with page_try_state [OF p] show ?thesis
      by (auto simp: emit_def)
  qed
  have c: "trace (snd (scrapeWithPuppeteer w u s)) = trace s"
    if "\<not> (browser s \<and> newPage (render w (calls s) u) = None)"
    using that
    by (cases "browser s"; cases "newPage (render w (calls s) u)")
       (auto simp: scrapeWithPuppeteer_def Let_def)
  from a b c show ?thesis by blast
qed

theorem tab_released_witness:
  "fst (scrapeWithPuppeteer world_selector_timeout (page_url 1)
       (snd (initializeBrowser world_selector_timeout
          (new_ScrapingService (default_config\<lparr>usePuppeteer := True\<rparr>)))))
      = Inl (Error ''Waiting for selector failed'')
   \<and> tabs (snd (scrapeWithPuppeteer world_selector_timeout (page_url 1)
       (snd (initializeBrowser world_selector_timeout
          (new_ScrapingService (default_config\<lparr>usePuppeteer := True\<rparr>)))))) = 0
   \<and> (\<exists>mid. trace (snd (scrapeWithPuppeteer world_selector_timeout (page_url 1)
       (snd (initializeBrowser world_selector_timeout
          (new_ScrapingService (default_config\<lparr>usePuppeteer := True\<rparr>))))))
        = [Launch] @ [NewPage] @ mid @ [PageClose]
        \<and> NewPage \<notin> set mid \<and> PageClose \<notin> set mid)
   \<and> trace (snd (scrapeWithPuppeteer world_selector_timeout (page_url 1)
       (new_ScrapingService (default_config\<lparr>usePuppeteer := True\<rparr>)))) = []"
proof -
  let ?fresh = "new_ScrapingService (default_config\<lparr>usePuppeteer := True\<rparr>)"
  let ?s = "snd (initializeBrowser world_selector_timeout ?fresh)"
  have a: "browser ?s" by code_simp
  have b: "newPage (render world_selector_timeout (calls ?s) (page_url 1)) = None"
    by (simp add: world_selector_timeout_def blank_page_def)
  have c: "fst (scrapeWithPuppeteer world_selector_timeout (page_url 1) ?s)
      = Inl (Error ''Waiting for selector failed'')" by code_simp
  have d: "tabs ?s = 0" "trace ?s = [Launch]" by code_simp+
  have e: "\<not> browser ?fresh" "trace ?fresh = []" by (simp_all add: new_ScrapingService_def)
  from tab_released [of world_selector_timeout "page_url 1" ?fresh] e
  have f: "trace (snd (scrapeWithPuppeteer world_selector_timeout (page_url 1) ?fresh)) = []"
    by simp
  from tab_released [of world_selector_timeout "page_url 1" ?s] a b c d f
  show ?thesis by simp
qed

section \<open>The browser\<close>

text \<open>
  C5. The claim: with \<open>usePuppeteer\<close> set, the first rendered fetch of a run creates
  the browser itself, and needs no initialisation call before it. The fetch has a
  guard instead: with no browser it throws. Here a fresh service with
  \<open>usePuppeteer\<close> set fetches a page: the fetch fails, no browser is set afterwards
  and nothing was done.
\<close>

theorem no_lazy_launch_counterexample:
  "fst (scrapeWithPuppeteer world_blank_title (page_url 1)
          (new_ScrapingService (default_config\<lparr>usePuppeteer := True\<rparr>)))
     = Inl (Error ''Browser not initialized'')
   \<and> \<not> browser (snd (scrapeWithPuppeteer world_blank_title (page_url 1)
          (new_ScrapingService (default_config\<lparr>usePuppeteer := True\<rparr>))))
   \<and> trace (snd (scrapeWithPuppeteer world_blank_title (page_url 1)
          (new_ScrapingService (default_config\<lparr>usePuppeteer := True\<rparr>)))) = []"
  by code_simp

text \<open>
  C5, as amended: the browser is created by \<open>initializeBrowser\<close> alone, which
  launches it when \<open>usePuppeteer\<close> is set and there is none. A rendered fetch never
  creates it: without a browser it fails with \<open>Browser not initialized\<close> and changes
  nothing, and a run started without the initialisation call returns no record.
\<close>

theorem browser_only_from_initializeBrowser:
  "(\<not> browser s \<longrightarrow> scrapeWithPuppeteer w u s = (Inl (Error ''Browser not initialized''), s))
   \<and> browser (snd (scrapeWithPuppeteer w u s)) = browser s
   \<and> (usePuppeteer (config s) \<and> \<not> browser s
      \<longrightarrow> fst (scrapeAnimePages w pages s) = []
          \<and> \<not> browser (snd (scrapeAnimePages w pages s)))
   \<and> (usePuppeteer (config s) \<and> \<not> browser s \<and> launch w = None
      \<longrightarrow> initializeBrowser w s = (Inr (), emit Launch (s\<lparr>browser := True\<rparr>)))"
proof -
  have a: "browser (snd (scrapeWithPuppeteer w u s)) = browser s"
    using scrapeWithPuppeteer_state [of w u s] by (cases "scrapeWithPuppeteer w u s") auto
  have b: "fst (scrapeAnimePages w pages s) = [] \<and> \<not> browser (snd (scrapeAnimePages w pages s))"
    if "usePuppeteer (config s) \<and> \<not> browser s"
    using that loop_no_browser [of s w pages "[]"] unfolding scrapeAnimePages_def by simp
  from a b show ?thesis
    by (simp add: scrapeWithPuppeteer_def initializeBrowser_def)
qed

theorem browser_only_from_initializeBrowser_witness:
  "fst (scrapeWithPuppeteer world_blank_title (page_url 1)
          (new_ScrapingService (default_config\<lparr>usePuppeteer := True\<rparr>)))
     = Inl (Error ''Browser not initialized'')
   \<and> fst (scrapeAnimePages world_blank_title [1, 2]
          (new_ScrapingService (default_config\<lparr>usePuppeteer := True\<rparr>))) = []
   \<and> browser (snd (initializeBrowser world_blank_title
          (new_ScrapingService (default_config\<lparr>usePuppeteer := True\<rparr>))))"
proof -
  let ?s = "new_ScrapingService (default_config\<lparr>usePuppeteer := True\<rparr>)"
  have h: "usePuppeteer (config ?s)" "\<not> browser ?s" "launch world_blank_title = None"
    by (simp_all add: new_ScrapingService_def default_config_def world_blank_title_def)
  from browser_only_from_initializeBrowser
    [of ?s world_blank_title "page_url 1" "[1, 2]"] h
  show ?thesis by (simp add: emit_def)
qed

section \<open>The delay between pages\<close>

text \<open>
  C4. The claim: the run sleeps after every page, failed or not, and not after the
  last one. The loop has no test for the last page: the call of \<open>delay\<close> follows the
  scrape of every page that succeeds. Here pages 1 and 3 both succeed: the run waits
  after page 1 and again after page 3, the last page.
\<close>

theorem delay_after_last_page_counterexample:
  "trace (snd (scrapeAnimePages world_page2_down [1, 3] (new_ScrapingService default_config)))
   = [LogInfo ''Scraping page 1'', AxiosGet ''http://animeindo.web.id/page/1/'',
      SetTimeout 1000,
      LogInfo ''Scraping page 3'', AxiosGet ''http://animeindo.web.id/page/3/'',
      SetTimeout 1000]"
  by code_simp

text \<open>
  C4, as amended: the run sleeps for \<open>config.delay\<close> right after every page whose
  scrape succeeded, the last page included, before it starts the next page or
  returns. With \<open>before\<close> the pages already done and \<open>after\<close> the pages still to
  come, empty or not: the state in which the next page starts, or the run returns,
  is the state after the scrape of \<open>page\<close> plus the wait.
\<close>

theorem delay_after_every_successful_page:
  assumes "scrapeAnimePages w before s = (results, s1)"
    and "scrapeAnimePage w page (emit (LogInfo (''Scraping page '' @ string_of_nat page)) s1)
           = (Inr pageData, s2)"
  shows "scrapeAnimePages w (before @ [page]) s
           = (results @ pageData, s2\<lparr>trace := trace s2 @ [SetTimeout (delay (config s))]\<rparr>)
       \<and> scrapeAnimePages w (before @ page # after) s
           = scrapeAnimePages_loop w after (results @ pageData)
               (s2\<lparr>trace := trace s2 @ [SetTimeout (delay (config s))]\<rparr>)"
proof -
  from assms(1) have c1: "config s1 = config s"
    using loop_state unfolding scrapeAnimePages_def by blast
  from scrapeAnimePage_state [OF assms(2)] c1 have c2: "config s2 = config s"
    by (simp add: emit_def)
  have step: "scrapeAnimePages_loop w (page # rest) results s1
      = scrapeAnimePages_loop w rest (results @ pageData)
          (s2\<lparr>trace := trace s2 @ [SetTimeout (delay (config s))]\<rparr>)" for rest
    using assms(2) c2 by (simp add: emit_def delay_ms_def)
  have split: "scrapeAnimePages w (before @ qs) s = scrapeAnimePages_loop w qs results s1" for qs
    using assms(1) unfolding scrapeAnimePages_def by (simp add: loop_append)
  from split [of "[page]"] split [of "page # after"] step [of "[]"] step [of after]
  show ?thesis by simp
qed

theorem delay_after_every_successful_page_witness:
  "trace (snd (scrapeAnimePages world_page2_down [1] (new_ScrapingService default_config)))
     = [LogInfo ''Scraping page 1'', AxiosGet ''http://animeindo.web.id/page/1/'',
        SetTimeout 1000]
   \<and> scrapeAnimePages world_page2_down [1, 3] (new_ScrapingService default_config)
     = scrapeAnimePages_loop world_page2_down [3]
         (fst (scrapeAnimePages world_page2_down [1] (new_ScrapingService default_config)))
         (snd (scrapeAnimePages world_page2_down [1] (new_ScrapingService default_config)))"
proof -
  let ?w = world_page2_down
  let ?s = "new_ScrapingService default_config"
  let ?start = "emit (LogInfo (''Scraping page '' @ string_of_nat 1)) ?s"
  have a: "scrapeAnimePages ?w [] ?s = ([], ?s)"
    by (simp add: scrapeAnimePages_def)
  obtain r s2 where b: "scrapeAnimePage ?w 1 ?start = (r, s2)"
    by (cases "scrapeAnimePage ?w 1 ?start") auto
  have ok: "\<not> isl (fst (scrapeAnimePage ?w 1 ?start))"
    by code_simp
  have t: "trace (snd (scrapeAnimePage ?w 1 ?start))
      = [LogInfo ''Scraping page 1'', AxiosGet ''http://animeindo.web.id/page/1/'']"
    by code_simp
  have d: "delay (config ?s) = 1000"
    by (simp add: new_ScrapingService_def default_config_def)
  from ok b obtain pageData where "r = Inr pageData" by (cases r) auto
  with b have b': "scrapeAnimePage ?w 1 ?start = (Inr pageData, s2)" by simp
  note th = delay_after_every_successful_page [OF a b', of "[3]"]
  from th have one: "scrapeAnimePages ?w [1] ?s
      = ([] @ pageData, s2\<lparr>trace := trace s2 @ [SetTimeout (delay (config ?s))]\<rparr>)"
    by simp
  from th have two: "scrapeAnimePages ?w [1, 3] ?s
      = scrapeAnimePages_loop ?w [3] ([] @ pageData)
          (s2\<lparr>trace := trace s2 @ [SetTimeout (delay (config ?s))]\<rparr>)"
    by simp
  from one t b' d have first: "trace (snd (scrapeAnimePages ?w [1] ?s))
     = [LogInfo ''Scraping page 1'', AxiosGet ''http://animeindo.web.id/page/1/'',
        SetTimeout 1000]"
    by simp
  from one two have second: "scrapeAnimePages ?w [1, 3] ?s
     = scrapeAnimePages_loop ?w [3] (fst (scrapeAnimePages ?w [1] ?s))
         (snd (scrapeAnimePages ?w [1] ?s))"
    by simp
  from first second show ?thesis by (rule conjI)
qed

section \<open>A run with one page down\<close>

text \<open>
  C1. The claim: over the pages 1, 2, 3, with page 2 failing at every attempt and two
  items on each of the other pages, the run returns a result made of the four
  records, an error list with one entry for page 2, and the count 2 of pages that
  succeeded. \<open>scrapeAnimePages\<close> returns the array of records and nothing else. Here
  the run with page 2 down returns the same value as the run in which page 2 is
  served and holds no episode: four records. The two runs differ in what they log
  only. So the value returned tells neither that a page failed nor how many
  succeeded.
\<close>

theorem returned_list_counterexample:
  "fst (scrapeAnimePages world_page2_down [1, 2, 3] (new_ScrapingService default_config))
     = fst (scrapeAnimePages world_page2_empty [1, 2, 3] (new_ScrapingService default_config))
   \<and> length (fst (scrapeAnimePages world_page2_down [1, 2, 3]
        (new_ScrapingService default_config))) = 4
   \<and> errors_logged (trace (snd (scrapeAnimePages world_page2_down [1, 2, 3]
        (new_ScrapingService default_config))))
     = [(''Error scraping page 2:'', AxiosError (Some 503))]
   \<and> errors_logged (trace (snd (scrapeAnimePages world_page2_empty [1, 2, 3]
        (new_ScrapingService default_config)))) = []"
  by code_simp

text \<open>
  C1, as amended: such a run throws nothing and returns the four records, page 1's
  two before page 3's two, each page's in item order; the failure of page 2 is
  reported in the error log, as one line, for page 2, and the log gets no other error
  line. This holds for either way of fetching: the hypotheses speak of the operation
  handed to the retry service, in any state the run can be in (the configuration and
  the browser of the start).
\<close>

theorem one_failed_page_of_three:
  assumes "\<And>s'. config s' = config s \<Longrightarrow> browser s' = browser s \<Longrightarrow>
       \<exists>ra rb s''. fetch w (page_url 1) s' = (Inr [ra, rb], s'')
          \<and> summary ra = x1 \<and> summary rb = x2
          \<and> errors_logged (trace s'') = errors_logged (trace s')"
    and "\<And>s'. config s' = config s \<Longrightarrow> browser s' = browser s \<Longrightarrow>
       isl (fst (fetch w (page_url 2) s'))"
    and "\<And>s'. config s' = config s \<Longrightarrow> browser s' = browser s \<Longrightarrow>
       \<exists>ra rb s''. fetch w (page_url 3) s' = (Inr [ra, rb], s'')
          \<and> summary ra = x3 \<and> summary rb = x4
          \<and> errors_logged (trace s'') = errors_logged (trace s')"
  shows "map summary (fst (scrapeAnimePages w [1, 2, 3] s)) = [x1, x2, x3, x4]
       \<and> (\<exists>e. errors_logged (trace (snd (scrapeAnimePages w [1, 2, 3] s)))
                = errors_logged (trace s) @ [(''Error scraping page 2:'', e)])"
proof -
  have n2: "string_of_nat 2 = ''2''" by code_simp
  from step_pair [where ps = "[2, 3]" and results = "[]", OF assms(1) refl refl]
  obtain ra rb s1 where
    p1: "scrapeAnimePages_loop w [1, 2, 3] [] s = scrapeAnimePages_loop w [2, 3] ([] @ [ra, rb]) s1"
    and r1: "summary ra = x1" "summary rb = x2"
    and c1: "config s1 = config s" "browser s1 = browser s"
      "errors_logged (trace s1) = errors_logged (trace s)"
    by blast
  from step_fail [where ps = "[3]" and results = "[ra, rb]", OF assms(2) c1(1,2)]
  obtain e s2 where
    p2: "scrapeAnimePages_loop w [2, 3] [ra, rb] s1 = scrapeAnimePages_loop w [3] [ra, rb] s2"
    and c2: "config s2 = config s" "browser s2 = browser s"
      "errors_logged (trace s2) = errors_logged (trace s1) @ [(''Error scraping page 2:'', e)]"
    unfolding n2 by auto
  from step_pair [where ps = "[]" and results = "[ra, rb]", OF assms(3) c2(1,2)]
  obtain rc rd s3 where
    p3: "scrapeAnimePages_loop w [3] [ra, rb] s2 = scrapeAnimePages_loop w [] ([ra, rb] @ [rc, rd]) s3"
    and r3: "summary rc = x3" "summary rd = x4"
    and c3: "errors_logged (trace s3) = errors_logged (trace s2)"
    by blast
  from p1 p2 p3 have "scrapeAnimePages w [1, 2, 3] s = ([ra, rb, rc, rd], s3)"
    by (simp add: scrapeAnimePages_def)
  with r1 r3 c1 c2 c3 show ?thesis by simp
qed

theorem one_failed_page_of_three_witness:
  "map summary (fst (scrapeAnimePages world_page2_down [1, 2, 3]
       (new_ScrapingService default_config)))
     = [(''Naruto'', ''n.jpg'', ''http://animeindo.web.id/page/1/''),
        (''Bleach'', ''b.jpg'', ''http://animeindo.web.id/page/1/''),
        (''One Piece'', ''o.jpg'', ''http://animeindo.web.id/page/3/''),
        (''Monster'', ''m.jpg'', ''http://animeindo.web.id/page/3/'')]
   \<and> (\<exists>e. errors_logged (trace (snd (scrapeAnimePages world_page2_down [1, 2, 3]
              (new_ScrapingService default_config))))
          = [(''Error scraping page 2:'', e)])"
proof -
  let ?s = "new_ScrapingService default_config"
  let ?a = "\<lparr>img_src = Some ''n.jpg'', title_text = ''Naruto'', status_text = ''Ongoing'',
             time_text = []\<rparr>"
  let ?b = "\<lparr>img_src = Some ''b.jpg'', title_text = ''Bleach'', status_text = ''Ongoing'',
             time_text = []\<rparr>"
  let ?c = "\<lparr>img_src = Some ''o.jpg'', title_text = ''One Piece'', status_text = ''Ongoing'',
             time_text = []\<rparr>"
  let ?d = "\<lparr>img_src = Some ''m.jpg'', title_text = ''Monster'', status_text = ''Ongoing'',
             time_text = []\<rparr>"
  have u: "page_url 1 = ''http://animeindo.web.id/page/1/''"
    "page_url 2 = ''http://animeindo.web.id/page/2/''"
    "page_url 3 = ''http://animeindo.web.id/page/3/''"
    by code_simp+
  have t: "item_title ?a = ''Naruto''" "item_title ?b = ''Bleach''"
    "item_title ?c = ''One Piece''" "item_title ?d = ''Monster''"
    by code_simp+
  have i: "item_imageUrl ?a = ''n.jpg''" "item_imageUrl ?b = ''b.jpg''"
    "item_imageUrl ?c = ''o.jpg''" "item_imageUrl ?d = ''m.jpg''"
    by (simp_all add: item_imageUrl_def)
  have x: "extractable ?a" "extractable ?b" "extractable ?c" "extractable ?d"
    using t i by (simp_all add: extractable_def)
  have h0: "\<not> usePuppeteer (config ?s)" "trace ?s = []"
    by (simp_all add: new_ScrapingService_def default_config_def)
  have g1: "axios_get world_page2_down k (page_url 1) = Inr [Inr ?a, Inr ?b]" for k
    unfolding world_page2_down_def episode_def u by simp
  have g2: "axios_get world_page2_down k (page_url 2) = Inl (AxiosError (Some 503))" for k
    unfolding world_page2_down_def episode_def u by simp
  have g3: "axios_get world_page2_down k (page_url 3) = Inr [Inr ?c, Inr ?d]" for k
    unfolding world_page2_down_def episode_def u by simp
  have h1: "\<exists>ra rb s''. fetch world_page2_down (page_url 1) s' = (Inr [ra, rb], s'')
          \<and> summary ra = (''Naruto'', ''n.jpg'', ''http://animeindo.web.id/page/1/'')
          \<and> summary rb = (''Bleach'', ''b.jpg'', ''http://animeindo.web.id/page/1/'')
          \<and> errors_logged (trace s'') = errors_logged (trace s')"
    if "config s' = config ?s" for s'
    using fetch_static_pair [OF _ g1 x(1,2), of s'] that h0(1) unfolding t i u by simp
  have h2: "isl (fst (fetch world_page2_down (page_url 2) s'))"
    if "config s' = config ?s" for s'
    using that h0(1) g2 [of "calls s'"]
    by (simp add: fetch_def scrapeWithCheerio_def Let_def)
  have h3: "\<exists>ra rb s''. fetch world_page2_down (page_url 3) s' = (Inr [ra, rb], s'')
          \<and> summary ra = (''One Piece'', ''o.jpg'', ''http://animeindo.web.id/page/3/'')
          \<and> summary rb = (''Monster'', ''m.jpg'', ''http://animeindo.web.id/page/3/'')
          \<and> errors_logged (trace s'') = errors_logged (trace s')"
    if "config s' = config ?s" for s'
    using fetch_static_pair [OF _ g3 x(3,4), of s'] that h0(1) unfolding t i u by simp
  from one_failed_page_of_three [where s = ?s and w = world_page2_down, OF h1 h2 h3]
  show ?thesis unfolding h0(2) by simp
qed

end
